theory Spec2Isabelle
  imports Main
begin

section \<open>Memory: owned arrays, raw pointers, outcomes\<close>

text \<open>
  The container of \<^verbatim>\<open>src/vector.h\<close> owns one heap array through a
  \<^verbatim>\<open>std::unique_ptr<T[]>\<close> and hands out raw pointers into it (its iterators and the
  references returned by \<^verbatim>\<open>operator[]\<close>). The heap is therefore explicit: a list of
  blocks indexed by address, a released block being \<open>None\<close>. Allocation always takes the
  next unused address, so a fresh block never aliases a live or a released one.

  \<^verbatim>\<open>size_type\<close> is modelled as \<open>nat\<close> and \<^verbatim>\<open>difference_type\<close> as \<open>int\<close>. The only
  arithmetic on sizes that could wrap is \<^verbatim>\<open>max_sz * 2\<close>, which needs a live buffer of at
  least \<open>2 ^ 63\<close> slots; exhaustion of memory (\<^verbatim>\<open>std::bad_alloc\<close>) is not modelled, allocation
  always succeeds.
\<close>

type_synonym addr = nat

type_synonym 'a heap = "'a list option list"

definition block_at :: "'a heap \<Rightarrow> addr \<Rightarrow> 'a list option" where
  "block_at h a = (if a < length h then h ! a else None)"

text \<open>\<^verbatim>\<open>std::make_unique<T[]>(n)\<close>: a fresh array of \<open>n\<close> value-initialised slots; \<open>d\<close>
  stands for the value-initialised element \<^verbatim>\<open>T()\<close>.\<close>

definition make_unique :: "'a \<Rightarrow> 'a heap \<Rightarrow> nat \<Rightarrow> addr \<times> 'a heap" where
  "make_unique d h n = (length h, h @ [Some (replicate n d)])"

text \<open>What a \<^verbatim>\<open>unique_ptr\<close> does to the array it owned when it is reassigned.\<close>

definition release :: "'a heap \<Rightarrow> addr \<Rightarrow> 'a heap" where
  "release h a = h[a := None]"

text \<open>Reading and writing slot \<open>i\<close> of the array at \<open>a\<close>. Outside a live array the
  behaviour of the C++ program is undefined: the model answers \<open>None\<close>.\<close>

definition load :: "'a heap \<Rightarrow> addr \<Rightarrow> nat \<Rightarrow> 'a option" where
  "load h a i =
     (case block_at h a of
        None \<Rightarrow> None
      | Some b \<Rightarrow> if i < length b then Some (b ! i) else None)"

definition store :: "'a heap \<Rightarrow> addr \<Rightarrow> nat \<Rightarrow> 'a \<Rightarrow> 'a heap option" where
  "store h a i x =
     (case block_at h a of
        None \<Rightarrow> None
      | Some b \<Rightarrow> if i < length b then Some (h[a := Some (b[i := x])]) else None)"

text \<open>A raw pointer: the array it points into and the slot. Both iterator classes wrap
  one (\<^verbatim>\<open>pointer ptr\<close>), and so does a reference to an element.\<close>

record ptr =
  blk :: addr
  off :: int

definition deref :: "'a heap \<Rightarrow> ptr \<Rightarrow> 'a option" where
  "deref h p = (if 0 \<le> off p then load h (blk p) (nat (off p)) else None)"

definition assign :: "'a heap \<Rightarrow> ptr \<Rightarrow> 'a \<Rightarrow> 'a heap option" where
  "assign h p x = (if 0 \<le> off p then store h (blk p) (nat (off p)) x else None)"

text \<open>\<^verbatim>\<open>ConstIterator::operator-\<close>, \<^verbatim>\<open>lop.ptr - rop.ptr\<close>: defined for two pointers
  into the same array only.\<close>

definition ptr_diff :: "ptr \<Rightarrow> ptr \<Rightarrow> int option" where
  "ptr_diff lop rop = (if blk lop = blk rop then Some (off lop - off rop) else None)"

text \<open>What a call does: it returns a value, or throws \<^verbatim>\<open>std::runtime_error\<close> with a
  message, in both cases leaving a state behind; or its behaviour is undefined.\<close>

datatype ('r, 's) outcome = Return 'r 's | Runtime_error string 's | Undefined

definition seq :: "('r, 's) outcome \<Rightarrow> ('r \<Rightarrow> 's \<Rightarrow> ('q, 's) outcome) \<Rightarrow> ('q, 's) outcome" where
  "seq m f =
     (case m of
        Return r s \<Rightarrow> f r s
      | Runtime_error e s \<Rightarrow> Runtime_error e s
      | Undefined \<Rightarrow> Undefined)"


section \<open>The container\<close>

record vector =
  sz :: nat
  max_sz :: nat
  vals :: addr

type_synonym 'a state = "'a heap \<times> vector"

definition min_capacity :: nat where
  "min_capacity = 5"

subsection \<open>Element loops\<close>

text \<open>\<^verbatim>\<open>for (i = 0; i < sz; ++i) new_values[i] = values[i];\<close> of \<^verbatim>\<open>reserve\<close> and
  \<^verbatim>\<open>shrink_to_fit\<close>, and \<^verbatim>\<open>std::copy(src, src + n, dst)\<close> of the copy operations, started
  at \<open>i\<close>.\<close>

function copy_elems :: "'a heap \<Rightarrow> addr \<Rightarrow> addr \<Rightarrow> nat \<Rightarrow> nat \<Rightarrow> 'a heap option" where
  "copy_elems h src dst i n =
     (if i < n then
        (case load h src i of
           None \<Rightarrow> None
         | Some x \<Rightarrow>
             (case store h dst i x of
                None \<Rightarrow> None
              | Some h' \<Rightarrow> copy_elems h' src dst (i + 1) n))
      else Some h)"
  by pat_completeness auto
termination
  by (relation "measure (\<lambda>(h, src, dst, i, n). n - i)") auto

text \<open>\<^verbatim>\<open>std::copy(init.begin(), init.end(), values.get())\<close>, writing from slot \<open>i\<close> on.\<close>

fun copy_init :: "'a heap \<Rightarrow> 'a list \<Rightarrow> addr \<Rightarrow> nat \<Rightarrow> 'a heap option" where
  "copy_init h [] dst i = Some h"
| "copy_init h (x # xs) dst i =
     (case store h dst i x of
        None \<Rightarrow> None
      | Some h' \<Rightarrow> copy_init h' xs dst (i + 1))"

text \<open>\<^verbatim>\<open>for (auto i{sz}; i-- > current;) values[i + 1] = values[i];\<close> of \<^verbatim>\<open>insert\<close>:
  the test compares the old \<open>i\<close>, the body runs with the decremented one.\<close>

function shift_right :: "'a heap \<Rightarrow> addr \<Rightarrow> nat \<Rightarrow> nat \<Rightarrow> 'a heap option" where
  "shift_right h a i current =
     (if i > current then
        (case load h a (i - 1) of
           None \<Rightarrow> None
         | Some x \<Rightarrow>
             (case store h a (i - 1 + 1) x of
                None \<Rightarrow> None
              | Some h' \<Rightarrow> shift_right h' a (i - 1) current))
      else Some h)"
  by pat_completeness auto
termination
  by (relation "measure (\<lambda>(h, a, i, current). i)") auto

text \<open>\<^verbatim>\<open>for (auto i{current}; i < sz - 1; ++i) values[i] = values[i + 1];\<close> of
  \<^verbatim>\<open>erase\<close>, with \<open>n\<close> for \<^verbatim>\<open>sz - 1\<close>.\<close>

function shift_left :: "'a heap \<Rightarrow> addr \<Rightarrow> nat \<Rightarrow> nat \<Rightarrow> 'a heap option" where
  "shift_left h a i n =
     (if i < n then
        (case load h a (i + 1) of
           None \<Rightarrow> None
         | Some x \<Rightarrow>
             (case store h a i x of
                None \<Rightarrow> None
              | Some h' \<Rightarrow> shift_left h' a (i + 1) n))
      else Some h)"
  by pat_completeness auto
termination
  by (relation "measure (\<lambda>(h, a, i, n). n - i)") auto

subsection \<open>Construction\<close>

text \<open>\<^verbatim>\<open>Vector() = default\<close>, from the default member initialisers.\<close>

definition Vector_default :: "'a \<Rightarrow> 'a heap \<Rightarrow> 'a state" where
  "Vector_default d h =
     (let (a, h') = make_unique d h min_capacity
      in (h', \<lparr>sz = 0, max_sz = min_capacity, vals = a\<rparr>))"


text \<open>\<^verbatim>\<open>Vector(std::initializer_list<value_type> init)\<close>.\<close>

definition Vector_init :: "'a \<Rightarrow> 'a heap \<Rightarrow> 'a list \<Rightarrow> (unit, 'a state) outcome" where
  "Vector_init d h init =
     (let m = max (length init) min_capacity;
          (a, h') = make_unique d h m
      in case copy_init h' init a 0 of
           None \<Rightarrow> Undefined
         | Some h'' \<Rightarrow> Return () (h'', \<lparr>sz = length init, max_sz = m, vals = a\<rparr>))"




subsection \<open>Queries\<close>

definition size_vec :: "vector \<Rightarrow> nat" where
  "size_vec v = sz v"

definition capacity :: "vector \<Rightarrow> nat" where
  "capacity v = max_sz v"

definition empty_vec :: "vector \<Rightarrow> bool" where
  "empty_vec v = (sz v = 0)"

text \<open>\<^verbatim>\<open>operator[]\<close>, both overloads: the reference it returns is the pointer to slot
  \<open>i\<close>.\<close>

definition subscript :: "'a state \<Rightarrow> nat \<Rightarrow> (ptr, 'a state) outcome" where
  "subscript s i =
     (if i \<ge> sz (snd s) then Runtime_error ''Index out of bounds'' s
      else Return \<lparr>blk = vals (snd s), off = int i\<rparr> s)"

text \<open>Reading \<^verbatim>\<open>vec[i]\<close> and writing \<^verbatim>\<open>vec[i] = x\<close> through that reference.\<close>

definition read_at :: "'a state \<Rightarrow> nat \<Rightarrow> ('a, 'a state) outcome" where
  "read_at s i =
     seq (subscript s i) (\<lambda>p s'.
       case deref (fst s') p of
         None \<Rightarrow> Undefined
       | Some x \<Rightarrow> Return x s')"

definition write_at :: "'a state \<Rightarrow> nat \<Rightarrow> 'a \<Rightarrow> (unit, 'a state) outcome" where
  "write_at s i x =
     seq (subscript s i) (\<lambda>p s'.
       case assign (fst s') p x of
         None \<Rightarrow> Undefined
       | Some h' \<Rightarrow> Return () (h', snd s'))"

definition begin_vec :: "vector \<Rightarrow> ptr" where
  "begin_vec v = \<lparr>blk = vals v, off = 0\<rparr>"


subsection \<open>Mutators\<close>


definition reserve :: "'a \<Rightarrow> 'a state \<Rightarrow> nat \<Rightarrow> (unit, 'a state) outcome" where
  "reserve d s n =
     (let (h, v) = s in
      if n \<le> max_sz v then Return () s
      else
        (let (a, h1) = make_unique d h n
         in case copy_elems h1 (vals v) a 0 (sz v) of
              None \<Rightarrow> Undefined
            | Some h2 \<Rightarrow> Return () (release h2 (vals v), v\<lparr>vals := a, max_sz := n\<rparr>)))"


definition push_back :: "'a \<Rightarrow> 'a state \<Rightarrow> 'a \<Rightarrow> (unit, 'a state) outcome" where
  "push_back d s x =
     seq (if sz (snd s) = max_sz (snd s) then reserve d s (max_sz (snd s) * 2) else Return () s)
       (\<lambda>_ (h, v).
          case store h (vals v) (sz v) x of
            None \<Rightarrow> Undefined
          | Some h' \<Rightarrow> Return () (h', v\<lparr>sz := sz v + 1\<rparr>))"

definition pop_back :: "'a state \<Rightarrow> (unit, 'a state) outcome" where
  "pop_back s =
     (if sz (snd s) = 0 then Runtime_error ''Cannot pop from empty vector'' s
      else Return () (fst s, (snd s)\<lparr>sz := sz (snd s) - 1\<rparr>))"

definition insert_vec :: "'a \<Rightarrow> 'a state \<Rightarrow> ptr \<Rightarrow> 'a \<Rightarrow> (ptr, 'a state) outcome" where
  "insert_vec d s pos val =
     (case ptr_diff pos (begin_vec (snd s)) of
        None \<Rightarrow> Undefined
      | Some diff \<Rightarrow>
          if diff < 0 \<or> nat diff > sz (snd s) then Runtime_error ''Iterator out of bounds'' s
          else
            (let current = nat diff in
             seq (if sz (snd s) \<ge> max_sz (snd s) then reserve d s (max_sz (snd s) * 2)
                  else Return () s)
               (\<lambda>_ (h, v).
                  case shift_right h (vals v) (sz v) current of
                    None \<Rightarrow> Undefined
                  | Some h1 \<Rightarrow>
                      (case store h1 (vals v) current val of
                         None \<Rightarrow> Undefined
                       | Some h2 \<Rightarrow>
                           Return \<lparr>blk = vals v, off = int current\<rparr> (h2, v\<lparr>sz := sz v + 1\<rparr>)))))"

text \<open>In \<^verbatim>\<open>erase\<close> the bound \<^verbatim>\<open>sz - 1\<close> is computed after the check has excluded
  \<^verbatim>\<open>sz == 0\<close>, so the subtraction does not wrap.\<close>

definition erase :: "'a state \<Rightarrow> ptr \<Rightarrow> (ptr, 'a state) outcome" where
  "erase s pos =
     (case ptr_diff pos (begin_vec (snd s)) of
        None \<Rightarrow> Undefined
      | Some diff \<Rightarrow>
          if diff < 0 \<or> nat diff \<ge> sz (snd s) then Runtime_error ''Iterator out of bounds'' s
          else
            (let current = nat diff; (h, v) = s in
             case shift_left h (vals v) current (sz v - 1) of
               None \<Rightarrow> Undefined
             | Some h1 \<Rightarrow> Return \<lparr>blk = vals v, off = int current\<rparr> (h1, v\<lparr>sz := sz v - 1\<rparr>)))"

subsection \<open>Formatting\<close>

text \<open>\<^verbatim>\<open>operator<<\<close> on a stream: \<open>os\<close> is the text written so far and \<open>shw\<close> what
  \<^verbatim>\<open>os << x\<close> writes for one element.\<close>

function print_loop :: "('a \<Rightarrow> string) \<Rightarrow> 'a state \<Rightarrow> nat \<Rightarrow> string \<Rightarrow> (string, 'a state) outcome" where
  "print_loop shw s i os =
     (if i < size_vec (snd s) then
        (case read_at s i of
           Return x s' \<Rightarrow>
             print_loop shw s (i + 1)
               (if i + 1 < size_vec (snd s) then os @ shw x @ '', '' else os @ shw x)
         | Runtime_error e s' \<Rightarrow> Runtime_error e s'
         | Undefined \<Rightarrow> Undefined)
      else Return os s)"
  by pat_completeness auto
termination
  by (relation "measure (\<lambda>(shw, s, i, os). size_vec (snd s) - i)") auto

definition print_vec :: "('a \<Rightarrow> string) \<Rightarrow> 'a state \<Rightarrow> string \<Rightarrow> (string, 'a state) outcome" where
  "print_vec shw s os =
     seq (print_loop shw s 0 (os @ ''['')) (\<lambda>os' s'. Return (os' @ '']'') s')"

declare copy_elems.simps [simp del] shift_right.simps [simp del] shift_left.simps [simp del]
  print_loop.simps [simp del]

section \<open>What a container holds\<close>

text \<open>The observed sequence: the first \<open>sz\<close> slots of the owned array.\<close>

definition contents :: "'a state \<Rightarrow> 'a list" where
  "contents s =
     (case block_at (fst s) (vals (snd s)) of
        None \<Rightarrow> []
      | Some b \<Rightarrow> take (sz (snd s)) b)"

text \<open>A valid container state: the container owns a live array of exactly \<open>max_sz\<close>
  slots, its length is within it and its capacity at least the floor.\<close>

definition valid :: "'a state \<Rightarrow> bool" where
  "valid s =
     (case block_at (fst s) (vals (snd s)) of
        None \<Rightarrow> False
      | Some b \<Rightarrow> length b = max_sz (snd s) \<and> sz (snd s) \<le> max_sz (snd s)
                  \<and> min_capacity \<le> max_sz (snd s))"

section \<open>Clients and specification-level notions\<close>

text \<open>A caller making the calls \<^verbatim>\<open>push_back(v_0); ...; push_back(v_{N-1})\<close> in order.\<close>

fun push_all :: "'a \<Rightarrow> 'a state \<Rightarrow> 'a list \<Rightarrow> (unit, 'a state) outcome" where
  "push_all d s [] = Return () s"
| "push_all d s (x # xs) = seq (push_back d s x) (\<lambda>_ s'. push_all d s' xs)"



text \<open>The rendering the specification asks for: the elements in index order,
  separated by a comma and a space, between square brackets.\<close>

fun comma_separated :: "string list \<Rightarrow> string" where
  "comma_separated [] = ''''"
| "comma_separated [x] = x"
| "comma_separated (x # y # ys) = x @ '', '' @ comma_separated (y # ys)"

definition bracketed :: "string list \<Rightarrow> string" where
  "bracketed xs = ''['' @ comma_separated xs @ '']''"

text \<open>A call on one container leaves every other array of the heap \<open>h\<close> as it was.\<close>

definition unchanged_outside :: "'a heap \<Rightarrow> 'a heap \<Rightarrow> addr \<Rightarrow> bool" where
  "unchanged_outside h h' a = (\<forall>c<length h. c \<noteq> a \<longrightarrow> block_at h' c = block_at h c)"







section \<open>Memory lemmas\<close>

lemma block_at_make_unique:
  "block_at (snd (make_unique d h n)) a = (if a = length h then Some (replicate n d) else block_at h a)"
  by (auto simp: block_at_def make_unique_def nth_append)

lemma block_at_update:
  "block_at (h[a := y]) b = (if b = a \<and> a < length h then y else block_at h b)"
  by (auto simp: block_at_def)

lemma block_at_release:
  "block_at (release h a) b = (if b = a then None else block_at h b)"
  by (auto simp: block_at_def release_def)

lemma block_at_live: "block_at h a = Some b \<Longrightarrow> a < length h"
  by (auto simp: block_at_def split: if_splits)

lemma load_live:
  "block_at h a = Some b \<Longrightarrow> i < length b \<Longrightarrow> load h a i = Some (b ! i)"
  by (simp add: load_def)

lemma store_live:
  "block_at h a = Some b \<Longrightarrow> i < length b \<Longrightarrow> store h a i x = Some (h[a := Some (b[i := x])])"
  by (simp add: store_def)

lemma copy_elems_live:
  assumes "block_at h src = Some bs" "block_at h dst = Some bd" "src \<noteq> dst"
    "n \<le> length bs" "n \<le> length bd" "i \<le> n"
  shows "copy_elems h src dst i n =
    Some (h[dst := Some (take i bd @ take (n - i) (drop i bs) @ drop n bd)])"
  using assms
proof (induction "n - i" arbitrary: i h bd)
  case 0
  then have "i = n" by simp
  moreover have "h[dst := Some bd] = h"
    using 0(3) by (auto simp: block_at_def list_update_same_conv split: if_splits)
  ultimately show ?case
    by (subst copy_elems.simps) simp
next
  case (Suc k)
  then have lt: "i < n" by simp
  let ?bd = "bd[i := bs ! i]"
  let ?h = "h[dst := Some ?bd]"
  have dlt: "dst < length h" using Suc.prems(2) by (rule block_at_live)
  have ld: "load h src i = Some (bs ! i)" using Suc.prems lt by (simp add: load_live)
  have st: "store h dst i (bs ! i) = Some ?h" using Suc.prems lt by (simp add: store_live)
  have s': "block_at ?h src = Some bs" using Suc.prems by (simp add: block_at_update)
  have d': "block_at ?h dst = Some ?bd" using dlt by (simp add: block_at_update)
  have k: "k = n - (i + 1)" using Suc.hyps(2) by simp
  have ih: "copy_elems ?h src dst (i + 1) n =
    Some (?h[dst := Some (take (i + 1) ?bd @ take (n - (i + 1)) (drop (i + 1) bs) @ drop n ?bd)])"
    using Suc.hyps(1)[OF k s' d'] Suc.prems lt by simp
  have e1: "take (Suc i) ?bd = take i bd @ [bs ! i]"
    using lt Suc.prems by (simp add: take_Suc_conv_app_nth)
  have e2: "drop n ?bd = drop n bd" using lt by simp
  have "drop i bs = bs ! i # drop (Suc i) bs"
    using lt Suc.prems by (simp add: Cons_nth_drop_Suc)
  moreover have "n - i = Suc (n - Suc i)" using lt by simp
  ultimately have e3: "take (n - i) (drop i bs) = bs ! i # take (n - Suc i) (drop (Suc i) bs)"
    by simp
  show ?case
    using lt ld st ih by (subst copy_elems.simps) (simp add: e1 e2 e3)
qed

lemma copy_init_live:
  assumes "block_at h dst = Some bd" "i + length xs \<le> length bd"
  shows "copy_init h xs dst i = Some (h[dst := Some (take i bd @ xs @ drop (i + length xs) bd)])"
  using assms
proof (induction xs arbitrary: h bd i)
  case Nil
  have "h[dst := Some bd] = h"
    using Nil(1) by (auto simp: block_at_def list_update_same_conv split: if_splits)
  then show ?case by simp
next
  case (Cons x xs)
  let ?bd = "bd[i := x]"
  let ?h = "h[dst := Some ?bd]"
  have dlt: "dst < length h" using Cons.prems(1) by (rule block_at_live)
  have st: "store h dst i x = Some ?h" using Cons.prems by (simp add: store_live)
  have d': "block_at ?h dst = Some ?bd" using dlt by (simp add: block_at_update)
  have ih: "copy_init ?h xs dst (Suc i) =
    Some (?h[dst := Some (take (Suc i) ?bd @ xs @ drop (Suc i + length xs) ?bd)])"
    using Cons.IH[OF d', of "Suc i"] Cons.prems by simp
  have e1: "take (Suc i) ?bd = take i bd @ [x]"
    using Cons.prems by (simp add: take_Suc_conv_app_nth)
  show ?case using st ih by (simp add: e1)
qed



section \<open>What each operation does to a valid container\<close>

lemma block_at_snoc:
  "block_at (h @ [y]) a = (if a = length h then y else block_at h a)"
  by (auto simp: block_at_def nth_append)

lemma valid_iff:
  "valid (h, v) \<longleftrightarrow>
     (\<exists>b. block_at h (vals v) = Some b \<and> length b = max_sz v \<and> sz v \<le> max_sz v
          \<and> min_capacity \<le> max_sz v)"
  by (auto simp: valid_def split: option.splits)

lemma realloc_copy:
  assumes "block_at h src = Some b" "k \<le> length b" "k \<le> n"
  shows "copy_elems (snd (make_unique d h n)) src (fst (make_unique d h n)) 0 k =
    Some (h @ [Some (take k b @ replicate (n - k) d)])"
proof -
  have lt: "src < length h" using assms(1) by (rule block_at_live)
  have 1: "block_at (h @ [Some (replicate n d)]) src = Some b"
    using assms(1) lt by (simp add: block_at_snoc)
  have 2: "block_at (h @ [Some (replicate n d)]) (length h) = Some (replicate n d)"
    by (simp add: block_at_snoc)
  have "copy_elems (h @ [Some (replicate n d)]) src (length h) 0 k =
    Some ((h @ [Some (replicate n d)])[length h := Some (take 0 (replicate n d) @ take (k - 0) (drop 0 b) @ drop k (replicate n d))])"
    using lt assms by (intro copy_elems_live[OF 1 2]) auto
  then show ?thesis by (simp add: make_unique_def)
qed

lemma reserve_spec:
  assumes "valid (h, v)"
  shows "\<exists>h' v'. reserve d (h, v) n = Return () (h', v') \<and> valid (h', v')
    \<and> sz v' = sz v \<and> max_sz v' = max n (max_sz v)
    \<and> contents (h', v') = contents (h, v)
    \<and> unchanged_outside h h' (vals v) \<and> length h \<le> length h'
    \<and> (vals v' = vals v \<or> length h \<le> vals v')
    \<and> (n \<le> max_sz v \<longrightarrow> h' = h \<and> v' = v)"
proof (cases "n \<le> max_sz v")
  case True
  then show ?thesis using assms
    by (simp add: reserve_def unchanged_outside_def max_def)
next
  case False
  from assms obtain b where b: "block_at h (vals v) = Some b" "length b = max_sz v"
    "sz v \<le> max_sz v" "min_capacity \<le> max_sz v"
    by (auto simp: valid_iff)
  have lt: "vals v < length h" using b(1) by (rule block_at_live)
  let ?h = "release (h @ [Some (take (sz v) b @ replicate (n - sz v) d)]) (vals v)"
  let ?v = "v\<lparr>vals := length h, max_sz := n\<rparr>"
  have cp: "copy_elems (snd (make_unique d h n)) (vals v) (fst (make_unique d h n)) 0 (sz v) =
    Some (h @ [Some (take (sz v) b @ replicate (n - sz v) d)])"
    using b False by (intro realloc_copy) auto
  have r: "reserve d (h, v) n = Return () (?h, ?v)"
    using False cp by (simp add: reserve_def make_unique_def)
  have blk: "block_at ?h (length h) = Some (take (sz v) b @ replicate (n - sz v) d)"
    using lt by (simp add: block_at_release block_at_snoc)
  have v: "valid (?h, ?v)"
    using blk b False by (simp add: valid_iff)
  have c: "contents (?h, ?v) = contents (h, v)"
    using blk b by (simp add: contents_def)
  have u: "unchanged_outside h ?h (vals v)"
    by (simp add: unchanged_outside_def block_at_release block_at_snoc)
  show ?thesis
    using r v c u False by (simp add: max_def release_def)
qed

lemma grow_spec:
  assumes "valid (h, v)"
  shows "\<exists>h1 v1 b1.
      (if sz v = max_sz v then reserve d (h, v) (max_sz v * 2) else Return () (h, v)) = Return () (h1, v1)
    \<and> block_at h1 (vals v1) = Some b1 \<and> length b1 = max_sz v1
    \<and> sz v1 = sz v \<and> sz v1 < max_sz v1 \<and> min_capacity \<le> max_sz v1
    \<and> max_sz v1 = (if sz v = max_sz v then max_sz v * 2 else max_sz v)
    \<and> take (sz v) b1 = contents (h, v)
    \<and> unchanged_outside h h1 (vals v) \<and> length h \<le> length h1
    \<and> (vals v1 = vals v \<or> length h \<le> vals v1)"
proof (cases "sz v = max_sz v")
  case True
  from assms have pos: "0 < max_sz v" by (auto simp: valid_iff min_capacity_def)
  from reserve_spec[OF assms, of d "max_sz v * 2"] obtain h1 v1 where
    r: "reserve d (h, v) (max_sz v * 2) = Return () (h1, v1)" "valid (h1, v1)"
       "sz v1 = sz v" "max_sz v1 = max (max_sz v * 2) (max_sz v)"
       "contents (h1, v1) = contents (h, v)" "unchanged_outside h h1 (vals v)"
       "length h \<le> length h1" "vals v1 = vals v \<or> length h \<le> vals v1"
    by blast
  from r(2) obtain b1 where b1: "block_at h1 (vals v1) = Some b1" "length b1 = max_sz v1"
    "min_capacity \<le> max_sz v1"
    by (auto simp: valid_iff)
  have "take (sz v) b1 = contents (h, v)"
    using r(3,5) b1 by (simp add: contents_def)
  then show ?thesis
    using True pos r b1 by (simp add: max_def)
next
  case False
  from assms obtain b where b: "block_at h (vals v) = Some b" "length b = max_sz v"
    "sz v \<le> max_sz v" "min_capacity \<le> max_sz v"
    by (auto simp: valid_iff)
  then show ?thesis
    using False by (simp add: contents_def unchanged_outside_def)
qed

lemma unchanged_outside_update:
  assumes "unchanged_outside h h1 a" "a1 = a \<or> length h \<le> a1"
  shows "unchanged_outside h (h1[a1 := y]) a"
  using assms by (auto simp: unchanged_outside_def block_at_update)

lemma push_back_spec:
  assumes "valid (h, v)"
  shows "\<exists>h' v'. push_back d (h, v) x = Return () (h', v') \<and> valid (h', v')
    \<and> sz v' = sz v + 1
    \<and> max_sz v' = (if sz v = max_sz v then max_sz v * 2 else max_sz v)
    \<and> contents (h', v') = contents (h, v) @ [x]
    \<and> unchanged_outside h h' (vals v) \<and> length h \<le> length h'
    \<and> (vals v' = vals v \<or> length h \<le> vals v')"
proof -
  from grow_spec[OF assms, of d] obtain h1 v1 b1 where
    g: "(if sz v = max_sz v then reserve d (h, v) (max_sz v * 2) else Return () (h, v)) = Return () (h1, v1)"
    and b1: "block_at h1 (vals v1) = Some b1" "length b1 = max_sz v1"
    and s1: "sz v1 = sz v" "sz v1 < max_sz v1" "min_capacity \<le> max_sz v1"
       "max_sz v1 = (if sz v = max_sz v then max_sz v * 2 else max_sz v)"
    and c1: "take (sz v) b1 = contents (h, v)"
    and f1: "unchanged_outside h h1 (vals v)" "length h \<le> length h1"
       "vals v1 = vals v \<or> length h \<le> vals v1"
    by blast
  let ?h = "h1[vals v1 := Some (b1[sz v1 := x])]"
  let ?v = "v1\<lparr>sz := sz v1 + 1\<rparr>"
  have lt: "vals v1 < length h1" using b1(1) by (rule block_at_live)
  have st: "store h1 (vals v1) (sz v1) x = Some ?h"
    using b1 s1 by (simp add: store_live)
  have p: "push_back d (h, v) x = Return () (?h, ?v)"
    unfolding push_back_def
    by (simp only: snd_conv g seq_def outcome.case prod.case st option.case)
  have blk: "block_at ?h (vals ?v) = Some (b1[sz v1 := x])"
    using lt by (simp add: block_at_update)
  have v: "valid (?h, ?v)"
    using blk b1 s1 by (simp add: valid_iff)
  have "take (Suc (sz v1)) (b1[sz v1 := x]) = take (sz v1) b1 @ [x]"
    using b1 s1 by (simp add: take_Suc_conv_app_nth)
  then have c: "contents (?h, ?v) = contents (h, v) @ [x]"
    using blk c1 s1 by (simp add: contents_def)
  have u: "unchanged_outside h ?h (vals v)"
    using f1 by (intro unchanged_outside_update)
  show ?thesis
    using p v c u s1 f1 by simp
qed

lemma pop_back_spec:
  assumes "valid (h, v)" "sz v \<noteq> 0"
  shows "pop_back (h, v) = Return () (h, v\<lparr>sz := sz v - 1\<rparr>)
    \<and> valid (h, v\<lparr>sz := sz v - 1\<rparr>)
    \<and> contents (h, v\<lparr>sz := sz v - 1\<rparr>) = butlast (contents (h, v))"
proof -
  from assms obtain b where b: "block_at h (vals v) = Some b" "length b = max_sz v"
    "sz v \<le> max_sz v" "min_capacity \<le> max_sz v"
    by (auto simp: valid_iff)
  have "butlast (take (sz v) b) = take (sz v - 1) b"
    using b by (simp add: butlast_take)
  then show ?thesis
    using assms b by (simp add: pop_back_def valid_iff contents_def)
qed





lemma Vector_default_spec:
  "Vector_default d h = (h @ [Some (replicate min_capacity d)], \<lparr>sz = 0, max_sz = min_capacity, vals = length h\<rparr>)"
  "valid (Vector_default d h)"
  "contents (Vector_default d h) = []"
  by (simp_all add: Vector_default_def make_unique_def valid_iff contents_def block_at_snoc)


lemma Vector_init_spec:
  "Vector_init d h xs =
     Return () (h @ [Some (xs @ replicate (max (length xs) min_capacity - length xs) d)],
       \<lparr>sz = length xs, max_sz = max (length xs) min_capacity, vals = length h\<rparr>)"
proof -
  let ?m = "max (length xs) min_capacity"
  have 1: "block_at (h @ [Some (replicate ?m d)]) (length h) = Some (replicate ?m d)"
    by (simp add: block_at_snoc)
  have "copy_init (h @ [Some (replicate ?m d)]) xs (length h) 0 =
    Some ((h @ [Some (replicate ?m d)])[length h :=
      Some (take 0 (replicate ?m d) @ xs @ drop (0 + length xs) (replicate ?m d))])"
    by (intro copy_init_live[OF 1]) simp
  then show ?thesis
    by (simp add: Vector_init_def make_unique_def Let_def)
qed

lemma Vector_init_valid:
  "valid (h @ [Some (xs @ replicate (max (length xs) min_capacity - length xs) d)],
       \<lparr>sz = length xs, max_sz = max (length xs) min_capacity, vals = length h\<rparr>)"
  "contents (h @ [Some (xs @ replicate (max (length xs) min_capacity - length xs) d)],
       \<lparr>sz = length xs, max_sz = max (length xs) min_capacity, vals = length h\<rparr>) = xs"
  by (simp_all add: valid_iff contents_def block_at_snoc)


lemma subscript_spec:
  "i < sz v \<Longrightarrow> subscript (h, v) i = Return \<lparr>blk = vals v, off = int i\<rparr> (h, v)"
  by (simp add: subscript_def)

lemma read_at_spec:
  assumes "valid (h, v)" "i < sz v"
  shows "read_at (h, v) i = Return (contents (h, v) ! i) (h, v)"
proof -
  from assms obtain b where b: "block_at h (vals v) = Some b" "length b = max_sz v"
    "sz v \<le> max_sz v"
    by (auto simp: valid_iff)
  then show ?thesis
    using assms(2) by (simp add: read_at_def subscript_def seq_def deref_def load_live contents_def)
qed


section \<open>Claims\<close>

text \<open>
  C10: on any valid container, \<^verbatim>\<open>push_back(x)\<close> followed at once by
  \<^verbatim>\<open>pop_back()\<close> returns normally and gives back the length and the sequence of
  elements the container had before; only the capacity may have grown.
\<close>

theorem push_back_pop_back_restores:
  assumes "valid s"
  shows "\<exists>s'. seq (push_back d s x) (\<lambda>_. pop_back) = Return () s'
    \<and> size_vec (snd s') = size_vec (snd s) \<and> contents s' = contents s
    \<and> capacity (snd s) \<le> capacity (snd s')"
proof -
  obtain h v where s: "s = (h, v)" by (cases s)
  from push_back_spec[of h v d x] assms obtain h1 v1 where
    p: "push_back d (h, v) x = Return () (h1, v1)" "valid (h1, v1)" "sz v1 = sz v + 1"
       "max_sz v1 = (if sz v = max_sz v then max_sz v * 2 else max_sz v)"
       "contents (h1, v1) = contents (h, v) @ [x]"
    unfolding s by blast
  have nz: "sz v1 \<noteq> 0" using p(3) by simp
  from pop_back_spec[OF p(2) nz] have
    q: "pop_back (h1, v1) = Return () (h1, v1\<lparr>sz := sz v1 - 1\<rparr>)"
       "contents (h1, v1\<lparr>sz := sz v1 - 1\<rparr>) = butlast (contents (h1, v1))"
    by simp_all
  show ?thesis
    unfolding s using p(1,3,4,5) q
    by (simp add: seq_def size_vec_def capacity_def)
qed

theorem push_back_pop_back_restores_witness:
  "valid ([Some [1, 2, 3, 4, 5 :: int]], \<lparr>sz = 5, max_sz = 5, vals = 0\<rparr>)
   \<and> (\<exists>s'. seq (push_back 0 ([Some [1, 2, 3, 4, 5 :: int]], \<lparr>sz = 5, max_sz = 5, vals = 0\<rparr>) 6)
          (\<lambda>_. pop_back) = Return () s'
        \<and> size_vec (snd s') = 5 \<and> contents s' = [1, 2, 3, 4, 5]
        \<and> 5 \<le> capacity (snd s'))"
proof -
  have v: "valid ([Some [1, 2, 3, 4, 5 :: int]], \<lparr>sz = 5, max_sz = 5, vals = 0\<rparr>)"
    by (simp add: valid_def block_at_def min_capacity_def)
  from push_back_pop_back_restores[OF v, of 0 6] show ?thesis
    using v by (simp add: size_vec_def capacity_def contents_def block_at_def)
qed











lemma reserve_no_throw: "reserve d s n \<noteq> Runtime_error e s'"
  by (cases s) (auto simp: reserve_def make_unique_def split: option.splits)

lemma subscript_throw_same: "subscript s i = Runtime_error e s' \<Longrightarrow> s' = s"
  by (auto simp: subscript_def split: if_splits)

lemma read_at_throw_same: "read_at s i = Runtime_error e s' \<Longrightarrow> s' = s"
  by (auto simp: read_at_def subscript_def seq_def split: if_splits option.splits)

lemma write_at_throw_same: "write_at s i x = Runtime_error e s' \<Longrightarrow> s' = s"
  by (auto simp: write_at_def subscript_def seq_def split: if_splits option.splits)

lemma pop_back_throw_same: "pop_back s = Runtime_error e s' \<Longrightarrow> s' = s"
  by (auto simp: pop_back_def split: if_splits)

lemma erase_throw_same: "erase s pos = Runtime_error e s' \<Longrightarrow> s' = s"
  by (cases s) (auto simp: erase_def Let_def split: if_splits option.splits)

lemma insert_throw_same:
  assumes "insert_vec d s pos x = Runtime_error e s'"
  shows "s' = s"
proof (cases "ptr_diff pos (begin_vec (snd s))")
  case None
  then show ?thesis using assms by (simp add: insert_vec_def)
next
  case (Some j)
  show ?thesis
  proof (cases "j < 0 \<or> nat j > sz (snd s)")
    case True
    then show ?thesis using assms Some by (auto simp: insert_vec_def)
  next
    case False
    define G where "G = (if sz (snd s) \<ge> max_sz (snd s) then reserve d s (max_sz (snd s) * 2) else Return () s)"
    have nt: "\<And>e' t. G \<noteq> Runtime_error e' t"
      by (simp add: G_def reserve_no_throw)
    have eq: "insert_vec d s pos x =
      seq G (\<lambda>_ (h, v).
        case shift_right h (vals v) (sz v) (nat j) of
          None \<Rightarrow> Undefined
        | Some h1 \<Rightarrow>
            (case store h1 (vals v) (nat j) x of
               None \<Rightarrow> Undefined
             | Some h2 \<Rightarrow> Return \<lparr>blk = vals v, off = int (nat j)\<rparr> (h2, v\<lparr>sz := sz v + 1\<rparr>)))"
      using False Some by (simp add: insert_vec_def G_def Let_def)
    show ?thesis
    proof (cases G)
      case (Return u t)
      then show ?thesis
        using assms eq by (cases t) (auto simp: seq_def split: option.splits)
    next
      case (Runtime_error e' t)
      with nt show ?thesis by blast
    next
      case Undefined
      then show ?thesis using assms eq by (simp add: seq_def)
    qed
  qed
qed

text \<open>
  C3: indexed access at an index not below the length throws
  \<^verbatim>\<open>std::runtime_error("Index out of bounds")\<close>; \<^verbatim>\<open>pop_back\<close> on an empty container
  throws \<^verbatim>\<open>std::runtime_error("Cannot pop from empty vector")\<close>; \<^verbatim>\<open>insert\<close> with a cursor
  at a distance from \<^verbatim>\<open>begin()\<close> that is negative or above the length, and \<^verbatim>\<open>erase\<close> with
  one that is negative or not below the length, throw
  \<^verbatim>\<open>std::runtime_error("Iterator out of bounds")\<close>. Whenever one of these calls throws, the
  state it leaves is the state it was called in: heap, length and capacity are untouched.
\<close>

theorem bounds_signalling:
  "(size_vec (snd s) \<le> i \<longrightarrow>
        subscript s i = Runtime_error ''Index out of bounds'' s
      \<and> read_at s i = Runtime_error ''Index out of bounds'' s
      \<and> write_at s i x = Runtime_error ''Index out of bounds'' s)
   \<and> (empty_vec (snd s) \<longrightarrow> pop_back s = Runtime_error ''Cannot pop from empty vector'' s)
   \<and> (ptr_diff pos (begin_vec (snd s)) = Some j \<and> (j < 0 \<or> int (size_vec (snd s)) < j) \<longrightarrow>
        insert_vec d s pos x = Runtime_error ''Iterator out of bounds'' s)
   \<and> (ptr_diff pos (begin_vec (snd s)) = Some j \<and> (j < 0 \<or> int (size_vec (snd s)) \<le> j) \<longrightarrow>
        erase s pos = Runtime_error ''Iterator out of bounds'' s)
   \<and> (\<forall>e s'. subscript s i = Runtime_error e s' \<or> read_at s i = Runtime_error e s'
          \<or> write_at s i x = Runtime_error e s' \<or> pop_back s = Runtime_error e s'
          \<or> insert_vec d s pos x = Runtime_error e s' \<or> erase s pos = Runtime_error e s'
        \<longrightarrow> s' = s)"
proof -
  have 1: "size_vec (snd s) \<le> i \<longrightarrow>
        subscript s i = Runtime_error ''Index out of bounds'' s
      \<and> read_at s i = Runtime_error ''Index out of bounds'' s
      \<and> write_at s i x = Runtime_error ''Index out of bounds'' s"
    by (simp add: size_vec_def subscript_def read_at_def write_at_def seq_def)
  have 2: "empty_vec (snd s) \<longrightarrow> pop_back s = Runtime_error ''Cannot pop from empty vector'' s"
    by (simp add: empty_vec_def pop_back_def)
  have 3: "ptr_diff pos (begin_vec (snd s)) = Some j \<and> (j < 0 \<or> int (size_vec (snd s)) < j) \<longrightarrow>
        insert_vec d s pos x = Runtime_error ''Iterator out of bounds'' s"
    by (auto simp: insert_vec_def size_vec_def)
  have 4: "ptr_diff pos (begin_vec (snd s)) = Some j \<and> (j < 0 \<or> int (size_vec (snd s)) \<le> j) \<longrightarrow>
        erase s pos = Runtime_error ''Iterator out of bounds'' s"
    by (auto simp: erase_def size_vec_def)
  have 5: "\<forall>e s'. subscript s i = Runtime_error e s' \<or> read_at s i = Runtime_error e s'
          \<or> write_at s i x = Runtime_error e s' \<or> pop_back s = Runtime_error e s'
          \<or> insert_vec d s pos x = Runtime_error e s' \<or> erase s pos = Runtime_error e s'
        \<longrightarrow> s' = s"
    by (auto dest: subscript_throw_same read_at_throw_same write_at_throw_same
        pop_back_throw_same insert_throw_same erase_throw_same)
  show ?thesis using 1 2 3 4 5 by blast
qed

theorem bounds_signalling_witness:
  "size_vec (snd ([Some [1, 2, 3, 0, 0 :: int]], \<lparr>sz = 3, max_sz = 5, vals = 0\<rparr>)) \<le> 3
   \<and> read_at ([Some [1, 2, 3, 0, 0 :: int]], \<lparr>sz = 3, max_sz = 5, vals = 0\<rparr>) 3
       = Runtime_error ''Index out of bounds'' ([Some [1, 2, 3, 0, 0]], \<lparr>sz = 3, max_sz = 5, vals = 0\<rparr>)
   \<and> empty_vec (snd ([Some [1, 2, 3, 0, 0 :: int]], \<lparr>sz = 0, max_sz = 5, vals = 0\<rparr>))
   \<and> pop_back ([Some [1, 2, 3, 0, 0 :: int]], \<lparr>sz = 0, max_sz = 5, vals = 0\<rparr>)
       = Runtime_error ''Cannot pop from empty vector'' ([Some [1, 2, 3, 0, 0]], \<lparr>sz = 0, max_sz = 5, vals = 0\<rparr>)
   \<and> ptr_diff \<lparr>blk = 0, off = 4\<rparr> (begin_vec (snd ([Some [1, 2, 3, 0, 0 :: int]], \<lparr>sz = 3, max_sz = 5, vals = 0\<rparr>))) = Some 4
   \<and> int (size_vec (snd ([Some [1, 2, 3, 0, 0 :: int]], \<lparr>sz = 3, max_sz = 5, vals = 0\<rparr>))) < 4
   \<and> insert_vec 0 ([Some [1, 2, 3, 0, 0 :: int]], \<lparr>sz = 3, max_sz = 5, vals = 0\<rparr>) \<lparr>blk = 0, off = 4\<rparr> 9
       = Runtime_error ''Iterator out of bounds'' ([Some [1, 2, 3, 0, 0]], \<lparr>sz = 3, max_sz = 5, vals = 0\<rparr>)
   \<and> erase ([Some [1, 2, 3, 0, 0 :: int]], \<lparr>sz = 3, max_sz = 5, vals = 0\<rparr>) \<lparr>blk = 0, off = 4\<rparr>
       = Runtime_error ''Iterator out of bounds'' ([Some [1, 2, 3, 0, 0]], \<lparr>sz = 3, max_sz = 5, vals = 0\<rparr>)"
proof -
  let ?s = "([Some [1, 2, 3, 0, 0 :: int]], \<lparr>sz = 3, max_sz = 5, vals = 0\<rparr>)"
  let ?e = "([Some [1, 2, 3, 0, 0 :: int]], \<lparr>sz = 0, max_sz = 5, vals = 0\<rparr>)"
  have a: "size_vec (snd ?s) \<le> 3" by (simp add: size_vec_def)
  have b: "empty_vec (snd ?e)" by (simp add: empty_vec_def)
  have c: "ptr_diff \<lparr>blk = 0, off = 4\<rparr> (begin_vec (snd ?s)) = Some 4"
    by (simp add: ptr_diff_def begin_vec_def)
  have d: "int (size_vec (snd ?s)) < 4" "int (size_vec (snd ?s)) \<le> 4" by (simp_all add: size_vec_def)
  note t1 = bounds_signalling[of ?s 3 9 "\<lparr>blk = 0, off = 4\<rparr>" 4 0]
  note t2 = bounds_signalling[of ?e 3 9 "\<lparr>blk = 0, off = 4\<rparr>" 4 0]
  from t1 a have 1: "read_at ?s 3 = Runtime_error ''Index out of bounds'' ?s" by blast
  from t2 b have 2: "pop_back ?e = Runtime_error ''Cannot pop from empty vector'' ?e" by blast
  from t1 c d have 3: "insert_vec 0 ?s \<lparr>blk = 0, off = 4\<rparr> 9 = Runtime_error ''Iterator out of bounds'' ?s"
    by blast
  from t1 c d have 4: "erase ?s \<lparr>blk = 0, off = 4\<rparr> = Runtime_error ''Iterator out of bounds'' ?s"
    by blast
  show ?thesis using a b c d 1 2 3 4 by blast
qed

lemma push_all_spec:
  assumes "valid s"
  shows "\<exists>s'. push_all d s xs = Return () s' \<and> valid s'
    \<and> sz (snd s') = sz (snd s) + length xs \<and> contents s' = contents s @ xs"
  using assms
proof (induction xs arbitrary: s)
  case Nil
  then show ?case by simp
next
  case (Cons x xs)
  obtain h v where s: "s = (h, v)" by (cases s)
  from push_back_spec[of h v d x] Cons.prems obtain h1 v1 where
    p: "push_back d (h, v) x = Return () (h1, v1)" "valid (h1, v1)" "sz v1 = sz v + 1"
       "contents (h1, v1) = contents (h, v) @ [x]"
    unfolding s by blast
  from Cons.IH[OF p(2)] obtain s' where
    r: "push_all d (h1, v1) xs = Return () s'" "valid s'"
       "sz (snd s') = sz (snd (h1, v1)) + length xs" "contents s' = contents (h1, v1) @ xs"
    by blast
  show ?case
    unfolding s using p r by (simp add: seq_def)
qed

text \<open>
  C1: starting from a default-constructed container, the calls \<^verbatim>\<open>push_back(v_0)\<close>, ...,
  \<^verbatim>\<open>push_back(v_{N-1})\<close> all return, and leave a container of size \<open>N\<close> in which indexed
  access at every \<open>i < N\<close> returns \<open>v_i\<close>, for every list of values and so across every
  doubling of the capacity.
\<close>

theorem push_back_sequence:
  "\<exists>s'. push_all d (Vector_default d h) xs = Return () s'
     \<and> size_vec (snd s') = length xs
     \<and> (\<forall>i<length xs. read_at s' i = Return (xs ! i) s')"
proof -
  from push_all_spec[OF Vector_default_spec(2), of d d h xs] obtain s' where
    r: "push_all d (Vector_default d h) xs = Return () s'" "valid s'"
       "sz (snd s') = sz (snd (Vector_default d h)) + length xs"
       "contents s' = contents (Vector_default d h) @ xs"
    by blast
  have n: "sz (snd s') = length xs"
    using r(3) by (simp add: Vector_default_spec(1))
  have c: "contents s' = xs"
    using r(4) by (simp add: Vector_default_spec(3))
  have "\<forall>i<length xs. read_at s' i = Return (xs ! i) s'"
    using read_at_spec[of "fst s'" "snd s'"] r(2) n c by simp
  then show ?thesis
    using r(1) n by (auto simp: size_vec_def)
qed

theorem push_back_sequence_witness:
  "(10 :: nat) < length [1, 2, 3, 4, 5, 6, 7, 8, 9, 10, 11 :: int]
   \<and> (\<exists>s'. push_all 0 (Vector_default 0 []) [1, 2, 3, 4, 5, 6, 7, 8, 9, 10, 11 :: int] = Return () s'
        \<and> size_vec (snd s') = 11
        \<and> read_at s' 10 = Return 11 s'
        \<and> read_at s' 5 = Return 6 s')"
  using push_back_sequence[of "0 :: int" "[]" "[1, 2, 3, 4, 5, 6, 7, 8, 9, 10, 11]"]
  by auto




text \<open>
  C5, as the code has it: construction from a literal list returns a valid container whose
  length is the number of listed values and whose capacity is the maximum of that number
  and the floor, with the listed values at the indices below the length. Length and
  capacity coincide exactly when the list has at least \<open>min_capacity\<close> values.
\<close>

theorem from_list_construction:
  "\<exists>s. Vector_init d h xs = Return () s \<and> valid s
     \<and> size_vec (snd s) = length xs
     \<and> capacity (snd s) = max (length xs) min_capacity
     \<and> contents s = xs
     \<and> (\<forall>i<length xs. read_at s i = Return (xs ! i) s)
     \<and> (size_vec (snd s) = capacity (snd s) \<longleftrightarrow> min_capacity \<le> length xs)"
proof -
  let ?s = "(h @ [Some (xs @ replicate (max (length xs) min_capacity - length xs) d)],
       \<lparr>sz = length xs, max_sz = max (length xs) min_capacity, vals = length h\<rparr>)"
  have r: "Vector_init d h xs = Return () ?s" by (rule Vector_init_spec)
  have v: "valid ?s" by (rule Vector_init_valid(1))
  have c: "contents ?s = xs" by (rule Vector_init_valid(2))
  have "\<forall>i<length xs. read_at ?s i = Return (xs ! i) ?s"
    using read_at_spec[OF v] c by simp
  then show ?thesis
    using r v c by (auto simp: size_vec_def capacity_def)
qed

theorem from_list_construction_witness:
  "(2 :: nat) < length [10, 20, 30 :: int]
   \<and> (\<exists>s. Vector_init 0 [] [10, 20, 30 :: int] = Return () s
        \<and> size_vec (snd s) = 3 \<and> capacity (snd s) = 5
        \<and> contents s = [10, 20, 30] \<and> read_at s 2 = Return 30 s)"
  using from_list_construction[of "0 :: int" "[]" "[10, 20, 30]"]
  by (auto simp: min_capacity_def)

text \<open>
  C5 as stated fails: the list \<open>[10, 20, 30]\<close> gives length 3 and capacity 5, so the
  length is neither the capacity nor the maximum of the count and the floor.
\<close>

theorem from_list_length_is_not_capacity:
  "Vector_init (0 :: int) [] [10, 20, 30]
     = Return () ([Some [10, 20, 30, 0, 0]], \<lparr>sz = 3, max_sz = 5, vals = 0\<rparr>)
   \<and> size_vec \<lparr>sz = 3, max_sz = 5, vals = 0\<rparr> = 3
   \<and> capacity \<lparr>sz = 3, max_sz = 5, vals = 0\<rparr> = 5
   \<and> size_vec \<lparr>sz = 3, max_sz = 5, vals = 0\<rparr> \<noteq> capacity \<lparr>sz = 3, max_sz = 5, vals = 0\<rparr>
   \<and> size_vec \<lparr>sz = 3, max_sz = 5, vals = 0\<rparr> \<noteq> max (length [10, 20, 30 :: int]) min_capacity"
  by code_simp

















lemma comma_separated_Cons:
  "comma_separated (x # xs) = x @ (if xs = [] then [] else '', '' @ comma_separated xs)"
  by (cases xs) simp_all

lemma print_loop_spec:
  assumes "valid s" "i \<le> sz (snd s)"
  shows "print_loop shw s i os = Return (os @ comma_separated (map shw (drop i (contents s)))) s"
  using assms(2)
proof (induction "sz (snd s) - i" arbitrary: i os)
  case 0
  obtain h v where s: "s = (h, v)" by (cases s)
  have len: "length (contents s) = sz (snd s)"
    using assms(1) unfolding s by (auto simp: valid_iff contents_def)
  from 0 have "i = sz (snd s)" by simp
  then show ?case
    using len by (subst print_loop.simps) (simp add: size_vec_def)
next
  case (Suc k)
  obtain h v where s: "s = (h, v)" by (cases s)
  have len: "length (contents s) = sz (snd s)"
    using assms(1) unfolding s by (auto simp: valid_iff contents_def)
  from Suc have lt: "i < sz (snd s)" by simp
  let ?x = "contents s ! i"
  let ?os = "if i + 1 < size_vec (snd s) then os @ shw ?x @ '', '' else os @ shw ?x"
  have rd: "read_at s i = Return ?x s"
    using read_at_spec[of h v i] assms(1) lt unfolding s by simp
  have k: "k = sz (snd s) - (i + 1)" using Suc.hyps(2) by simp
  have ih: "print_loop shw s (i + 1) ?os
    = Return (?os @ comma_separated (map shw (drop (i + 1) (contents s)))) s"
    using lt by (intro Suc.hyps(1)[OF k]) simp
  have d: "drop i (contents s) = ?x # drop (i + 1) (contents s)"
    using lt len by (simp add: Cons_nth_drop_Suc)
  have e: "(drop (i + 1) (contents s) = []) = (\<not> i + 1 < size_vec (snd s))"
    using len lt by (auto simp: size_vec_def)
  have "?os @ comma_separated (map shw (drop (i + 1) (contents s)))
    = os @ comma_separated (map shw (drop i (contents s)))"
    unfolding d using e by (simp add: comma_separated_Cons)
  with ih have ih': "print_loop shw s (i + 1) ?os
    = Return (os @ comma_separated (map shw (drop i (contents s)))) s"
    by simp
  have "print_loop shw s i os = print_loop shw s (i + 1) ?os"
    using lt rd by (subst print_loop.simps) (simp add: size_vec_def)
  with ih' show ?case by simp
qed

text \<open>
  C8: writing a valid container to a stream returns, leaves the container as it was, and
  appends exactly the bracketed, comma-separated rendering of the \<open>size()\<close> elements in
  index order; for an empty container that is \<open>[]\<close>. The text depends on nothing but
  those elements, so slots at indices from \<open>size()\<close> on are not rendered.
\<close>

theorem print_vec_renders:
  assumes "valid s"
  shows "print_vec shw s os = Return (os @ bracketed (map shw (contents s))) s
    \<and> length (contents s) = size_vec (snd s)
    \<and> (\<forall>i<size_vec (snd s). read_at s i = Return (contents s ! i) s)
    \<and> (empty_vec (snd s) \<longrightarrow> print_vec shw s os = Return (os @ ''[]'') s)"
proof -
  obtain h v where s: "s = (h, v)" by (cases s)
  have len: "length (contents s) = sz (snd s)"
    using assms unfolding s by (auto simp: valid_iff contents_def)
  have "print_loop shw s 0 (os @ ''['')
    = Return ((os @ ''['') @ comma_separated (map shw (drop 0 (contents s)))) s"
    by (rule print_loop_spec[OF assms]) simp
  then have p: "print_vec shw s os = Return (os @ bracketed (map shw (contents s))) s"
    by (simp add: print_vec_def seq_def bracketed_def)
  have r: "\<forall>i<size_vec (snd s). read_at s i = Return (contents s ! i) s"
    using read_at_spec[of h v] assms unfolding s by (simp add: size_vec_def)
  have e: "empty_vec (snd s) \<longrightarrow> print_vec shw s os = Return (os @ ''[]'') s"
  proof
    assume "empty_vec (snd s)"
    then have "contents s = []" using len by (simp add: empty_vec_def)
    then show "print_vec shw s os = Return (os @ ''[]'') s"
      using p by (simp add: bracketed_def)
  qed
  show ?thesis using p len r e by (simp add: size_vec_def)
qed

theorem print_vec_renders_witness:
  "valid ([Some [''1'', ''2'', ''3'', ''99'', '''']], \<lparr>sz = 3, max_sz = 5, vals = 0\<rparr>)
   \<and> valid ([Some [''1'', ''2'', ''3'', ''99'', '''']], \<lparr>sz = 0, max_sz = 5, vals = 0\<rparr>)
   \<and> empty_vec (snd ([Some [''1'', ''2'', ''3'', ''99'', '''']], \<lparr>sz = 0, max_sz = 5, vals = 0\<rparr>))
   \<and> (2 :: nat) < size_vec (snd ([Some [''1'', ''2'', ''3'', ''99'', '''']], \<lparr>sz = 3, max_sz = 5, vals = 0\<rparr>))
   \<and> print_vec (\<lambda>x. x) ([Some [''1'', ''2'', ''3'', ''99'', '''']], \<lparr>sz = 3, max_sz = 5, vals = 0\<rparr>) ''v = ''
       = Return ''v = [1, 2, 3]'' ([Some [''1'', ''2'', ''3'', ''99'', '''']], \<lparr>sz = 3, max_sz = 5, vals = 0\<rparr>)
   \<and> read_at ([Some [''1'', ''2'', ''3'', ''99'', '''']], \<lparr>sz = 3, max_sz = 5, vals = 0\<rparr>) 2
       = Return ''3'' ([Some [''1'', ''2'', ''3'', ''99'', '''']], \<lparr>sz = 3, max_sz = 5, vals = 0\<rparr>)
   \<and> print_vec (\<lambda>x. x) ([Some [''1'', ''2'', ''3'', ''99'', '''']], \<lparr>sz = 0, max_sz = 5, vals = 0\<rparr>) ''''
       = Return ''[]'' ([Some [''1'', ''2'', ''3'', ''99'', '''']], \<lparr>sz = 0, max_sz = 5, vals = 0\<rparr>)"
proof -
  let ?s = "([Some [''1'', ''2'', ''3'', ''99'', '''']], \<lparr>sz = 3, max_sz = 5, vals = 0\<rparr>)"
  let ?e = "([Some [''1'', ''2'', ''3'', ''99'', '''']], \<lparr>sz = 0, max_sz = 5, vals = 0\<rparr>)"
  have v: "valid ?s" by (simp add: valid_def block_at_def min_capacity_def)
  have ve: "valid ?e" by (simp add: valid_def block_at_def min_capacity_def)
  have em: "empty_vec (snd ?e)" by (simp add: empty_vec_def)
  have lt: "(2 :: nat) < size_vec (snd ?s)" by (simp add: size_vec_def)
  have c: "contents ?s = [''1'', ''2'', ''3'']" by (simp add: contents_def block_at_def)
  have b: "bracketed (map (\<lambda>x. x) [''1'', ''2'', ''3'']) = ''[1, 2, 3]''"
    by (simp add: bracketed_def)
  note t1 = print_vec_renders[OF v, of "\<lambda>x. x" "''v = ''"]
  note t2 = print_vec_renders[OF ve, of "\<lambda>x. x" "''''"]
  have 1: "print_vec (\<lambda>x. x) ?s ''v = '' = Return ''v = [1, 2, 3]'' ?s"
    using t1 unfolding c b by simp
  have 2: "read_at ?s 2 = Return ''3'' ?s"
    using t1 lt unfolding c by simp
  from t2 em have "print_vec (\<lambda>x. x) ?e '''' = Return ('''' @ ''[]'') ?e"
    by blast
  then have 3: "print_vec (\<lambda>x. x) ?e '''' = Return ''[]'' ?e"
    by simp
  show ?thesis using v ve em lt 1 2 3 by blast
qed










end
